theory Spec2Isabelle
  imports Complex_Main
begin

text \<open>
  A shallow embedding of the stream library java8script: the processors of
  \<open>processor.ts\<close>, the equality of \<open>functions/index.ts\<close> and the terminal operations of
  \<open>stream/index.ts\<close>, with the properties of them that the specification states.
  Mutable objects are records passed in and returned; an operation that may not return
  has an \<open>option\<close> result, \<open>None\<close> being no return; the invocations of a callback that
  a property speaks of are recorded in a field or a result of the model.
\<close>

section \<open>Values and the optional container\<close>

text \<open>
  A slot of a JavaScript array of type \<open>T[]\<close> holds a value of \<open>T\<close>, or one of the two
  nullish values when \<open>T\<close> admits them. \<open>Array.prototype.shift\<close> on an empty array
  returns \<open>undefined\<close>.
\<close>

datatype 'a jsval = Undefined | Null | Val 'a

fun shift :: "'a jsval list \<Rightarrow> 'a jsval \<times> 'a jsval list" where
  "shift [] = (Undefined, [])"
| "shift (x # xs) = (x, xs)"

text \<open>
  Modelled from the spec: the optional container (module \<open>./optional\<close> is imported by
  \<open>processor.ts\<close> and \<open>stream/index.ts\<close> and is not among the sources). It "wraps
  value present or empty"; \<open>ofNullable\<close> gives the empty optional for a nullish value,
  \<open>map\<close> and \<open>filter\<close> leave the empty optional alone and do not call their argument on
  it. A present optional is \<open>Some v\<close>, the empty one is \<open>None\<close>. The second component of
  \<open>Optional_map\<close> and \<open>Optional_filter\<close> lists the arguments the callback was invoked
  with, in order.
\<close>

fun ofNullable :: "'a jsval \<Rightarrow> 'a option" where
  "ofNullable Undefined = None"
| "ofNullable Null = None"
| "ofNullable (Val v) = Some v"

text \<open>
  Modelled from the spec: \<open>map(f)\<close> of the optional container (module \<open>./optional\<close>, not
  among the sources); the result of \<open>f\<close> is wrapped as \<open>ofNullable\<close> wraps it.
\<close>

fun Optional_map :: "('a \<Rightarrow> 'b jsval) \<Rightarrow> 'a option \<Rightarrow> 'b option \<times> 'a list" where
  "Optional_map f None = (None, [])"
| "Optional_map f (Some v) = (ofNullable (f v), [v])"

text \<open>
  Modelled from the spec: \<open>filter(predicate)\<close> of the optional container (module
  \<open>./optional\<close>, not among the sources).
\<close>

fun Optional_filter :: "('a \<Rightarrow> bool) \<Rightarrow> 'a option \<Rightarrow> 'a option \<times> 'a list" where
  "Optional_filter p None = (None, [])"
| "Optional_filter p (Some v) = ((if p v then Some v else None), [v])"

section \<open>functions/index.ts\<close>

text \<open>
  \<open>BiPredicate.defaultEquality\<close>: \<open>(i1, i2) => i1 === i2\<close>. The values of the model are
  primitive values on which \<open>===\<close> is equality (numbers other than \<open>NaN\<close>, strings,
  booleans, \<open>undefined\<close>, \<open>null\<close>); objects, which \<open>===\<close> compares by reference, are
  values of the model when the type \<open>'a\<close> is taken to be their references.
\<close>

definition defaultEquality :: "'a jsval \<Rightarrow> 'a jsval \<Rightarrow> bool" where
  "defaultEquality i1 i2 = (i1 = i2)"

section \<open>processor.ts\<close>

subsection \<open>AbstractProcessor\<close>

record 'i AbstractProcessor =
  inputs :: "'i jsval list"

definition add :: "'i jsval \<Rightarrow> ('i, 'z) AbstractProcessor_scheme \<Rightarrow> ('i, 'z) AbstractProcessor_scheme" where
  "add input p = p\<lparr>inputs := inputs p @ [input]\<rparr>"

definition takeNextInput ::
  "('i, 'z) AbstractProcessor_scheme \<Rightarrow> 'i option \<times> ('i, 'z) AbstractProcessor_scheme" where
  "takeNextInput p = (case shift (inputs p) of (v, rest) \<Rightarrow> (ofNullable v, p\<lparr>inputs := rest\<rparr>))"

definition hasNext :: "('i, 'z) AbstractProcessor_scheme \<Rightarrow> bool" where
  "hasNext p = (length (inputs p) > 0)"

subsection \<open>DistinctProcessor\<close>

text \<open>
  The class adds the fields \<open>comparator\<close> and \<open>distinctList\<close>. \<open>comparatorCalls\<close> is not a
  field of the class: it records, in order, every pair of arguments the comparator has
  been invoked with, so that "the comparator is not invoked" can be stated.
\<close>

record 'i DistinctProcessor = "'i AbstractProcessor" +
  comparator :: "'i jsval \<Rightarrow> 'i jsval \<Rightarrow> bool"
  distinctList :: "'i jsval list option"
  comparatorCalls :: "('i jsval \<times> 'i jsval) list"

definition distinctProcessor :: "('i jsval \<Rightarrow> 'i jsval \<Rightarrow> bool) \<Rightarrow> 'i DistinctProcessor" where
  "distinctProcessor cmp =
     \<lparr>inputs = [], comparator = cmp, distinctList = None, comparatorCalls = []\<rparr>"

definition DistinctProcessor_hasNext :: "'i DistinctProcessor \<Rightarrow> bool" where
  "DistinctProcessor_hasNext p =
     (let distinctListExistsAndHasValues =
        (case distinctList p of Some dl \<Rightarrow> length dl > 0 | None \<Rightarrow> False)
      in length (inputs p) > 0 \<or> distinctListExistsAndHasValues)"

text \<open>
  The body of the \<open>forEach\<close> callback of \<open>processValues\<close>: \<open>filter\<close> calls the comparator
  as \<open>comparator(item, distinct)\<close> on every element of the list built so far, and the item
  is pushed when nothing matched.
\<close>

definition forEachItem ::
  "('i jsval \<Rightarrow> 'i jsval \<Rightarrow> bool) \<Rightarrow> 'i jsval \<Rightarrow>
   'i jsval list \<times> ('i jsval \<times> 'i jsval) list \<Rightarrow> 'i jsval list \<times> ('i jsval \<times> 'i jsval) list" where
  "forEachItem cmp item st =
     (case st of (dl, calls) \<Rightarrow>
        (let matchingItems = filter (\<lambda>distinct. cmp item distinct) dl;
             calls' = calls @ map (\<lambda>distinct. (item, distinct)) dl
         in if length matchingItems = 0 then (dl @ [item], calls')
            else (dl, calls')))"

definition processValues :: "'i DistinctProcessor \<Rightarrow> 'i DistinctProcessor" where
  "processValues p =
     (case fold (forEachItem (comparator p)) (inputs p) ([], comparatorCalls p) of
        (dl, calls') \<Rightarrow>
          p\<lparr>inputs := [], distinctList := Some dl, comparatorCalls := calls'\<rparr>)"

function DistinctProcessor_processAndGetNext ::
  "'i DistinctProcessor \<Rightarrow> 'i option \<times> 'i DistinctProcessor" where
  "DistinctProcessor_processAndGetNext p =
     (case distinctList p of
        None \<Rightarrow> DistinctProcessor_processAndGetNext (processValues p)
      | Some dl \<Rightarrow> (case shift dl of (v, rest) \<Rightarrow> (ofNullable v, p\<lparr>distinctList := Some rest\<rparr>)))"
  by pat_completeness auto
termination
  by (relation "measure (\<lambda>p. if distinctList p = None then 1 else 0)")
     (auto simp: processValues_def split: prod.splits)

text \<open>The results of \<open>n\<close> successive calls of \<open>processAndGetNext\<close>, and the processor after them.\<close>

fun DistinctProcessor_pulls ::
  "nat \<Rightarrow> 'i DistinctProcessor \<Rightarrow> 'i option list \<times> 'i DistinctProcessor" where
  "DistinctProcessor_pulls 0 p = ([], p)"
| "DistinctProcessor_pulls (Suc n) p =
     (case DistinctProcessor_processAndGetNext p of (r, p') \<Rightarrow>
        (case DistinctProcessor_pulls n p' of (rs, p'') \<Rightarrow> (r # rs, p'')))"

text \<open>
  A call made on a processor from outside: \<open>add(input)\<close> or \<open>processAndGetNext()\<close>.
  \<open>DistinctProcessor_run\<close> makes the calls of a list in order and collects what the
  calls of \<open>processAndGetNext\<close> return.
\<close>

datatype 'i call = Add "'i jsval" | ProcessAndGetNext

fun DistinctProcessor_run ::
  "'i call list \<Rightarrow> 'i DistinctProcessor \<Rightarrow> 'i option list \<times> 'i DistinctProcessor" where
  "DistinctProcessor_run [] p = ([], p)"
| "DistinctProcessor_run (Add x # cs) p = DistinctProcessor_run cs (add x p)"
| "DistinctProcessor_run (ProcessAndGetNext # cs) p =
     (case DistinctProcessor_processAndGetNext p of (r, p') \<Rightarrow>
        (case DistinctProcessor_run cs p' of (rs, p'') \<Rightarrow> (r # rs, p'')))"

fun added :: "'i call list \<Rightarrow> 'i jsval list" where
  "added [] = []"
| "added (Add x # cs) = x # added cs"
| "added (ProcessAndGetNext # cs) = added cs"

fun pullCount :: "'i call list \<Rightarrow> nat" where
  "pullCount [] = 0"
| "pullCount (Add x # cs) = pullCount cs"
| "pullCount (ProcessAndGetNext # cs) = Suc (pullCount cs)"

text \<open>
  The distinct elements of a list as the spec words them: an element is kept when no
  element kept before it is equal to it under the equality test (called with the new
  element first), and the kept elements stay in the order of their first occurrence.
  \<open>kept\<close> holds the elements kept so far.
\<close>

fun firstOccurrences :: "('a \<Rightarrow> 'a \<Rightarrow> bool) \<Rightarrow> 'a list \<Rightarrow> 'a list \<Rightarrow> 'a list" where
  "firstOccurrences eq kept [] = []"
| "firstOccurrences eq kept (x # xs) =
     (if list_ex (\<lambda>k. eq x k) kept then firstOccurrences eq kept xs
      else x # firstOccurrences eq (kept @ [x]) xs)"

subsection \<open>MapProcessor and FilterProcessor\<close>

text \<open>
  \<open>transformerCalls\<close> and \<open>predicateCalls\<close> are not fields of the classes: they list the
  arguments the callback has been invoked with.
\<close>

record ('i, 'o) MapProcessor = "'i AbstractProcessor" +
  transformer :: "'i \<Rightarrow> 'o jsval"
  transformerCalls :: "'i list"

definition mapProcessor :: "('i \<Rightarrow> 'o jsval) \<Rightarrow> ('i, 'o) MapProcessor" where
  "mapProcessor f = \<lparr>inputs = [], transformer = f, transformerCalls = []\<rparr>"

definition MapProcessor_processAndGetNext ::
  "('i, 'o) MapProcessor \<Rightarrow> 'o option \<times> ('i, 'o) MapProcessor" where
  "MapProcessor_processAndGetNext p =
     (case takeNextInput p of (nextInput, p') \<Rightarrow>
        (case Optional_map (transformer p') nextInput of (r, calls) \<Rightarrow>
           (r, p'\<lparr>transformerCalls := transformerCalls p' @ calls\<rparr>)))"

record 'i FilterProcessor = "'i AbstractProcessor" +
  predicate :: "'i \<Rightarrow> bool"
  predicateCalls :: "'i list"

definition filterProcessor :: "('i \<Rightarrow> bool) \<Rightarrow> 'i FilterProcessor" where
  "filterProcessor f = \<lparr>inputs = [], predicate = f, predicateCalls = []\<rparr>"

definition FilterProcessor_processAndGetNext ::
  "'i FilterProcessor \<Rightarrow> 'i option \<times> 'i FilterProcessor" where
  "FilterProcessor_processAndGetNext p =
     (case takeNextInput p of (nextInput, p') \<Rightarrow>
        (case Optional_filter (predicate p') nextInput of (r, calls) \<Rightarrow>
           (r, p'\<lparr>predicateCalls := predicateCalls p' @ calls\<rparr>)))"

section \<open>stream/index.ts\<close>

subsection \<open>PipelineStream\<close>

text \<open>
  The class \<open>ProcessorPipeline\<close> (module \<open>../processorPipeline\<close>) is not among the
  sources. \<open>PipelineStream\<close> uses one method of it, \<open>getNextResult\<close>, so the terminal
  operations below take that method as the parameter \<open>gnr\<close>: from a pipeline state it
  gives the optional it returns and the pipeline state it leaves, or \<open>None\<close> when the call
  does not return. \<open>pulled\<close> is not a field of the class: it counts the calls of
  \<open>getNextResult\<close> made through this stream.
\<close>

record 'p PipelineStream =
  pipeline :: 'p
  processingStarted :: bool
  pulled :: nat

definition newPipelineStream :: "'p \<Rightarrow> 'p PipelineStream" where
  "newPipelineStream pl = \<lparr>pipeline = pl, processingStarted = False, pulled = 0\<rparr>"

definition getNextProcessedItem ::
  "('p \<Rightarrow> ('t option \<times> 'p) option) \<Rightarrow> 'p PipelineStream \<Rightarrow> ('t option \<times> 'p PipelineStream) option" where
  "getNextProcessedItem gnr s =
     (case gnr (pipeline s) of
        None \<Rightarrow> None
      | Some (r, pl) \<Rightarrow>
          Some (r, s\<lparr>pipeline := pl, processingStarted := True, pulled := pulled s + 1\<rparr>))"

text \<open>
  The \<open>while (nextItem.isPresent())\<close> loops of the terminal operations. A loop that does
  not end, or a pull that does not return, is the value \<open>None\<close>. The last argument of the
  three match loops lists the arguments the pred has been invoked with; it is
  returned with the result.
\<close>

partial_function (option) allMatch_loop ::
  "('p \<Rightarrow> ('t option \<times> 'p) option) \<Rightarrow> ('t \<Rightarrow> bool) \<Rightarrow> 't option \<Rightarrow> 'p PipelineStream \<Rightarrow> 't list
   \<Rightarrow> (bool \<times> 'p PipelineStream \<times> 't list) option" where
  "allMatch_loop gnr pred nextItem s calls =
     (case nextItem of
        None \<Rightarrow> Some (True, s, calls)
      | Some v \<Rightarrow>
          if pred v = False then Some (False, s, calls @ [v])
          else Option.bind (getNextProcessedItem gnr s)
                 (\<lambda>(nextItem', s'). allMatch_loop gnr pred nextItem' s' (calls @ [v])))"

declare allMatch_loop.simps [code]

definition allMatch ::
  "('p \<Rightarrow> ('t option \<times> 'p) option) \<Rightarrow> ('t \<Rightarrow> bool) \<Rightarrow> 'p PipelineStream
   \<Rightarrow> (bool \<times> 'p PipelineStream \<times> 't list) option" where
  "allMatch gnr pred s =
     Option.bind (getNextProcessedItem gnr s)
       (\<lambda>(nextItem, s'). allMatch_loop gnr pred nextItem s' [])"

partial_function (option) noneMatch_loop ::
  "('p \<Rightarrow> ('t option \<times> 'p) option) \<Rightarrow> ('t \<Rightarrow> bool) \<Rightarrow> 't option \<Rightarrow> 'p PipelineStream \<Rightarrow> 't list
   \<Rightarrow> (bool \<times> 'p PipelineStream \<times> 't list) option" where
  "noneMatch_loop gnr pred nextItem s calls =
     (case nextItem of
        None \<Rightarrow> Some (True, s, calls)
      | Some v \<Rightarrow>
          if pred v = True then Some (False, s, calls @ [v])
          else Option.bind (getNextProcessedItem gnr s)
                 (\<lambda>(nextItem', s'). noneMatch_loop gnr pred nextItem' s' (calls @ [v])))"

declare noneMatch_loop.simps [code]

definition noneMatch ::
  "('p \<Rightarrow> ('t option \<times> 'p) option) \<Rightarrow> ('t \<Rightarrow> bool) \<Rightarrow> 'p PipelineStream
   \<Rightarrow> (bool \<times> 'p PipelineStream \<times> 't list) option" where
  "noneMatch gnr pred s =
     Option.bind (getNextProcessedItem gnr s)
       (\<lambda>(nextItem, s'). noneMatch_loop gnr pred nextItem s' [])"

partial_function (option) anyMatch_loop ::
  "('p \<Rightarrow> ('t option \<times> 'p) option) \<Rightarrow> ('t \<Rightarrow> bool) \<Rightarrow> 't option \<Rightarrow> 'p PipelineStream \<Rightarrow> 't list
   \<Rightarrow> (bool \<times> 'p PipelineStream \<times> 't list) option" where
  "anyMatch_loop gnr pred nextItem s calls =
     (case nextItem of
        None \<Rightarrow> Some (False, s, calls)
      | Some v \<Rightarrow>
          if pred v = True then Some (True, s, calls @ [v])
          else Option.bind (getNextProcessedItem gnr s)
                 (\<lambda>(nextItem', s'). anyMatch_loop gnr pred nextItem' s' (calls @ [v])))"

declare anyMatch_loop.simps [code]

definition anyMatch ::
  "('p \<Rightarrow> ('t option \<times> 'p) option) \<Rightarrow> ('t \<Rightarrow> bool) \<Rightarrow> 'p PipelineStream
   \<Rightarrow> (bool \<times> 'p PipelineStream \<times> 't list) option" where
  "anyMatch gnr pred s =
     Option.bind (getNextProcessedItem gnr s)
       (\<lambda>(nextItem, s'). anyMatch_loop gnr pred nextItem s' [])"

definition findFirst ::
  "('p \<Rightarrow> ('t option \<times> 'p) option) \<Rightarrow> 'p PipelineStream \<Rightarrow> ('t option \<times> 'p PipelineStream) option" where
  "findFirst gnr s = getNextProcessedItem gnr s"

definition findAny ::
  "('p \<Rightarrow> ('t option \<times> 'p) option) \<Rightarrow> 'p PipelineStream \<Rightarrow> ('t option \<times> 'p PipelineStream) option" where
  "findAny gnr s = getNextProcessedItem gnr s"

text \<open>
  \<open>customCollect\<close>: the container is mutable in the source and the accumulator returns
  nothing; here the accumulator returns the container as it leaves it. The parameter
  \<open>combiner\<close> does not occur in the body, as in the source.
\<close>

partial_function (option) customCollect_loop ::
  "('p \<Rightarrow> ('t option \<times> 'p) option) \<Rightarrow> ('r \<Rightarrow> 't \<Rightarrow> 'r) \<Rightarrow> 'r \<Rightarrow> 't option \<Rightarrow> 'p PipelineStream
   \<Rightarrow> ('r \<times> 'p PipelineStream) option" where
  "customCollect_loop gnr accumulator container nextItem s =
     (case nextItem of
        None \<Rightarrow> Some (container, s)
      | Some v \<Rightarrow>
          Option.bind (getNextProcessedItem gnr s)
            (\<lambda>(nextItem', s'). customCollect_loop gnr accumulator (accumulator container v) nextItem' s'))"

declare customCollect_loop.simps [code]

definition customCollect ::
  "('p \<Rightarrow> ('t option \<times> 'p) option) \<Rightarrow> (unit \<Rightarrow> 'r) \<Rightarrow> ('r \<Rightarrow> 't \<Rightarrow> 'r) \<Rightarrow> ('r \<Rightarrow> 'r \<Rightarrow> 'r)
   \<Rightarrow> 'p PipelineStream \<Rightarrow> ('r \<times> 'p PipelineStream) option" where
  "customCollect gnr supplier accumulator combiner s =
     (let container = supplier ()
      in Option.bind (getNextProcessedItem gnr s)
           (\<lambda>(nextItem, s'). customCollect_loop gnr accumulator container nextItem s'))"

text \<open>
  Modelled from the spec: a \<open>Collector\<close> (module \<open>../collectors\<close> is not among the sources)
  "supplies three callables: a zero-argument factory for the result container, a
  two-argument accumulate step, and a one-argument finishing step" (the fields
  \<open>c_supplier\<close>, \<open>c_accumulator\<close>, \<open>c_finisher\<close>). \<open>toList\<close> is the
  collector behind \<open>toArray\<close>, which materializes the stream to an array.
\<close>

record ('t, 'a, 'r) Collector =
  c_supplier :: "unit \<Rightarrow> 'a"
  c_accumulator :: "'a \<Rightarrow> 't \<Rightarrow> 'a"
  c_finisher :: "'a \<Rightarrow> 'r"


text \<open>
  \<open>collect\<close> has one implementation for its two overloads. \<open>firstArg\<close> is a collector
  (\<open>Inl\<close>, the \<open>instanceof Collector\<close> branch) or a supplier (\<open>Inr\<close>); \<open>accumulator\<close> and
  \<open>combiner\<close> are optional parameters. The second branch calls \<open>customCollect\<close> and has
  no \<open>return\<close>: the function then returns \<open>undefined\<close>, as it does when neither branch
  is taken.
\<close>

definition collect ::
  "('p \<Rightarrow> ('t option \<times> 'p) option) \<Rightarrow> (('t, 'a, 'r) Collector + (unit \<Rightarrow> 'r))
   \<Rightarrow> ('r \<Rightarrow> 't \<Rightarrow> 'r) option \<Rightarrow> ('r \<Rightarrow> 'r \<Rightarrow> 'r) option
   \<Rightarrow> 'p PipelineStream \<Rightarrow> ('r jsval \<times> 'p PipelineStream) option" where
  "collect gnr firstArg accumulator combiner s =
     (case firstArg of
        Inl collector \<Rightarrow>
          (let container = c_supplier collector ()
           in Option.bind (getNextProcessedItem gnr s)
                (\<lambda>(nextItem, s').
                   Option.bind (customCollect_loop gnr (c_accumulator collector) container nextItem s')
                     (\<lambda>(container', s''). Some (Val (c_finisher collector container'), s''))))
      | Inr supplier \<Rightarrow>
          (case (accumulator, combiner) of
             (Some acc, Some comb) \<Rightarrow>
               Option.bind (customCollect gnr supplier acc comb s)
                 (\<lambda>(container, s'). Some (Undefined, s'))
           | _ \<Rightarrow> Some (Undefined, s)))"


text \<open>
  \<open>reduce\<close>: \<open>initialValue\<close> is \<open>undefined\<close> when the caller passes no seed. The
  accumulator returns a value of the element type.
\<close>

partial_function (option) reduce_loop ::
  "('p \<Rightarrow> ('t option \<times> 'p) option) \<Rightarrow> ('t \<Rightarrow> 't \<Rightarrow> 't) \<Rightarrow> 't option \<Rightarrow> 't option \<Rightarrow> 'p PipelineStream
   \<Rightarrow> ('t option \<times> 'p PipelineStream) option" where
  "reduce_loop gnr accumulator currentValue nextItem s =
     (case nextItem of
        None \<Rightarrow> Some (currentValue, s)
      | Some v \<Rightarrow>
          Option.bind (getNextProcessedItem gnr s)
            (\<lambda>(nextItem', s').
               reduce_loop gnr accumulator
                 (case currentValue of Some c \<Rightarrow> Some (accumulator c v) | None \<Rightarrow> nextItem)
                 nextItem' s'))"

declare reduce_loop.simps [code]

definition reduce ::
  "('p \<Rightarrow> ('t option \<times> 'p) option) \<Rightarrow> ('t \<Rightarrow> 't \<Rightarrow> 't) \<Rightarrow> 't jsval \<Rightarrow> 'p PipelineStream
   \<Rightarrow> ('t option \<times> 'p PipelineStream) option" where
  "reduce gnr accumulator initialValue s =
     (let currentValue = ofNullable initialValue
      in Option.bind (getNextProcessedItem gnr s)
           (\<lambda>(nextItem, s'). reduce_loop gnr accumulator currentValue nextItem s'))"

text \<open>The results of \<open>n\<close> successive calls of \<open>getNextResult\<close>, and the pipeline after them.\<close>

fun pulls :: "('p \<Rightarrow> ('t option \<times> 'p) option) \<Rightarrow> nat \<Rightarrow> 'p \<Rightarrow> ('t option list \<times> 'p) option" where
  "pulls gnr 0 pl = Some ([], pl)"
| "pulls gnr (Suc n) pl =
     (case gnr pl of
        None \<Rightarrow> None
      | Some (r, pl') \<Rightarrow>
          (case pulls gnr n pl' of None \<Rightarrow> None | Some (rs, pl'') \<Rightarrow> Some (r # rs, pl'')))"

section \<open>Sources, the limit stage and the pipeline\<close>

text \<open>
  Modelled from the spec: \<open>Source.arraySource\<close> (module \<open>../source\<close> is imported by
  \<open>stream/index.ts\<close> and is not among the sources). A source has the "contract:
  \<open>produceNext() -> Optional<T>\<close>. Returns empty exactly when exhausted." The array-backed
  source "yields elements in stored order, one per call, empty once exhausted"; its
  state is the list of the elements not yet yielded.
\<close>

definition arraySource :: "'t list \<Rightarrow> 't list" where
  "arraySource xs = xs"

text \<open>
  Modelled from the spec: \<open>produceNext\<close> of the array-backed source (module \<open>../source\<close>,
  not among the sources).
\<close>

fun ArraySource_produceNext :: "'t list \<Rightarrow> 't option \<times> 't list" where
  "ArraySource_produceNext [] = (None, [])"
| "ArraySource_produceNext (x # xs) = (Some x, xs)"









text \<open>
  Modelled from the spec: the limit stage (\<open>Processor.limitProcessor\<close> is called by
  \<open>stream/index.ts\<close> and is not defined in \<open>processor.ts\<close>). It "emits queued inputs
  unchanged until n have been emitted, then reports permanently exhausted regardless of
  further input". \<open>emitted\<close> counts the outputs so far.
\<close>

record 'i LimitProcessor = "'i AbstractProcessor" +
  maxSize :: int
  emitted :: int


text \<open>
  Modelled from the spec: the limit stage (not defined in \<open>processor.ts\<close>) "reports
  permanently exhausted" once its bound has been emitted.
\<close>

definition LimitProcessor_exhausted :: "'i LimitProcessor \<Rightarrow> bool" where
  "LimitProcessor_exhausted p = (maxSize p \<le> emitted p)"

text \<open>
  Modelled from the spec: \<open>hasNext\<close> of the limit stage (not defined in \<open>processor.ts\<close>).
\<close>

definition LimitProcessor_hasNext :: "'i LimitProcessor \<Rightarrow> bool" where
  "LimitProcessor_hasNext p = (\<not> LimitProcessor_exhausted p \<and> hasNext p)"

text \<open>
  Modelled from the spec: \<open>pullNext\<close> of the limit stage (not defined in \<open>processor.ts\<close>).
\<close>

definition LimitProcessor_processAndGetNext :: "'i LimitProcessor \<Rightarrow> 'i option \<times> 'i LimitProcessor" where
  "LimitProcessor_processAndGetNext p =
     (if LimitProcessor_exhausted p then (None, p)
      else (case takeNextInput p of
              (None, p') \<Rightarrow> (None, p')
            | (Some v, p') \<Rightarrow> (Some v, p'\<lparr>emitted := emitted p' + 1\<rparr>)))"

text \<open>
  Modelled from the spec: the stages of a pipeline as "a closed tagged variant (one tag
  per built-in stage kind)" with "the shared contract (\<open>hasNext\<close>, \<open>accept\<close>,
  \<open>pullNext\<close>)"; the tags here are the two stateless processors of \<open>processor.ts\<close> and the
  limit stage. \<open>Stage_add\<close> is \<open>accept\<close>: the pipeline feeds a stage the value of a present
  optional. \<open>Stage_exhausted\<close> is the report "permanently exhausted" of a limit stage.
\<close>

datatype 't Stage =
    MapStage "('t, 't) MapProcessor"
  | FilterStage "'t FilterProcessor"
  | LimitStage "'t LimitProcessor"

text \<open>
  Modelled from the spec: \<open>accept\<close> of a stage of the pipeline (module
  \<open>../processorPipeline\<close>, not among the sources).
\<close>

fun Stage_add :: "'t \<Rightarrow> 't Stage \<Rightarrow> 't Stage" where
  "Stage_add v (MapStage p) = MapStage (add (Val v) p)"
| "Stage_add v (FilterStage p) = FilterStage (add (Val v) p)"
| "Stage_add v (LimitStage p) = LimitStage (add (Val v) p)"

text \<open>
  Modelled from the spec: \<open>hasNext\<close> of a stage of the pipeline (module
  \<open>../processorPipeline\<close>, not among the sources).
\<close>

fun Stage_hasNext :: "'t Stage \<Rightarrow> bool" where
  "Stage_hasNext (MapStage p) = hasNext p"
| "Stage_hasNext (FilterStage p) = hasNext p"
| "Stage_hasNext (LimitStage p) = LimitProcessor_hasNext p"

text \<open>
  Modelled from the spec: \<open>pullNext\<close> of a stage of the pipeline (module
  \<open>../processorPipeline\<close>, not among the sources).
\<close>

fun Stage_processAndGetNext :: "'t Stage \<Rightarrow> 't option \<times> 't Stage" where
  "Stage_processAndGetNext (MapStage p) =
     (case MapProcessor_processAndGetNext p of (r, p') \<Rightarrow> (r, MapStage p'))"
| "Stage_processAndGetNext (FilterStage p) =
     (case FilterProcessor_processAndGetNext p of (r, p') \<Rightarrow> (r, FilterStage p'))"
| "Stage_processAndGetNext (LimitStage p) =
     (case LimitProcessor_processAndGetNext p of (r, p') \<Rightarrow> (r, LimitStage p'))"

text \<open>
  Modelled from the spec: the report "permanently exhausted" of a stage of the pipeline
  (module \<open>../processorPipeline\<close>, not among the sources); only a limit stage makes it.
\<close>

fun Stage_exhausted :: "'t Stage \<Rightarrow> bool" where
  "Stage_exhausted (LimitStage p) = LimitProcessor_exhausted p"
| "Stage_exhausted _ = False"

text \<open>
  Modelled from the spec: the pipeline (module \<open>../processorPipeline\<close> is not among the
  sources), "an ordered list of Stages with a Source at its head". \<open>stages\<close> lists the
  stages from the last one back to the one next to the source. \<open>sourcePulls\<close> is not part
  of the pipeline: it counts the calls of the source's \<open>produceNext\<close>.
\<close>

record ('src, 't) ProcessorPipeline =
  source :: 'src
  stages :: "'t Stage list"
  sourcePulls :: nat

text \<open>
  Modelled from the spec: \<open>ProcessorPipeline.create\<close> (module \<open>../processorPipeline\<close>, not
  among the sources): the pipeline of a source with no stage.
\<close>

definition ProcessorPipeline_create :: "'src \<Rightarrow> ('src, 't) ProcessorPipeline" where
  "ProcessorPipeline_create src = \<lparr>source = src, stages = [], sourcePulls = 0\<rparr>"


text \<open>
  Modelled from the spec: \<open>getNextResult\<close> (module \<open>../processorPipeline\<close>, not among the
  sources). The source's \<open>produceNext\<close> is the parameter \<open>pn\<close>. "To get the next output of
  the last stage, first try to pull from the last stage; if it yields a value, return
  it. If it yields nothing, [...] pull one element from the stage before it
  (recursively, down to the Source), feed it to the last stage via \<open>accept\<close>, and retry.
  [...] if the Source is exhausted, there is no more input to feed forward, and the
  algorithm must then ask each stage still holding buffered state [...] to keep emitting
  from their buffer until all stages report no more output"; and "once a limit stage has
  emitted its bound, the pipeline must stop requesting further upstream pulls". A call
  that does not return is \<open>None\<close>.
\<close>

partial_function (option) getNextResult ::
  "('src \<Rightarrow> 't option \<times> 'src) \<Rightarrow> ('src, 't) ProcessorPipeline
   \<Rightarrow> ('t option \<times> ('src, 't) ProcessorPipeline) option" where
  "getNextResult pn pl =
     (case stages pl of
        [] \<Rightarrow>
          (case pn (source pl) of
             (r, src') \<Rightarrow> Some (r, pl\<lparr>source := src', sourcePulls := sourcePulls pl + 1\<rparr>))
      | st # upstream \<Rightarrow>
          (case Stage_processAndGetNext st of
             (Some v, st') \<Rightarrow> Some (Some v, pl\<lparr>stages := st' # upstream\<rparr>)
           | (None, st') \<Rightarrow>
               if Stage_exhausted st' then Some (None, pl\<lparr>stages := st' # upstream\<rparr>)
               else Option.bind (getNextResult pn (pl\<lparr>stages := upstream\<rparr>))
                      (\<lambda>(u, pl').
                         case u of
                           Some x \<Rightarrow> getNextResult pn (pl'\<lparr>stages := Stage_add x st' # stages pl'\<rparr>)
                         | None \<Rightarrow>
                             if Stage_hasNext st'
                             then getNextResult pn (pl'\<lparr>stages := st' # stages pl'\<rparr>)
                             else Some (None, pl'\<lparr>stages := st' # stages pl'\<rparr>))))"

declare getNextResult.simps [code]

subsection \<open>The static methods of \<open>Stream\<close> and the intermediate operation \<open>limit\<close>\<close>

text \<open>
  \<open>PipelineStream.ofSource\<close>, \<open>PipelineStream.of\<close> (behind \<open>Stream.of\<close>), \<open>Stream.iterate\<close>,
  \<open>Stream.range\<close>, \<open>Stream.rangeClosed\<close> and \<open>limit\<close>, as \<open>stream/index.ts\<close> writes them.
  Every one of them makes a new \<open>PipelineStream\<close>. The optional parameter \<open>step\<close> is
  \<open>None\<close> when the caller leaves it out. \<open>rangeClosed\<close> adds 1 to its bound or subtracts
  1 from it, which rounds: it takes the rounding \<open>rnd\<close>.
\<close>

definition ofSource :: "'src \<Rightarrow> ('src, 't) ProcessorPipeline PipelineStream" where
  "ofSource src = newPipelineStream (ProcessorPipeline_create src)"

definition Stream_of :: "'t list \<Rightarrow> ('t list, 't) ProcessorPipeline PipelineStream" where
  "Stream_of src = ofSource (arraySource src)"





subsection \<open>Measures used in the proofs\<close>



section \<open>Properties of the processors\<close>

subsection \<open>Helper lemmas\<close>

lemma fold_forEachItem_fst:
  "fst (fold (forEachItem eq) xs (dl, calls)) = dl @ firstOccurrences eq dl xs"
proof (induction xs arbitrary: dl calls)
  case Nil
  show ?case by simp
next
  case (Cons x xs)
  have m: "(length (filter (eq x) dl) = 0) = (\<not> list_ex (eq x) dl)"
    by (simp add: list_ex_iff filter_empty_conv)
  show ?case
    using Cons.IH m by (simp add: forEachItem_def Let_def)
qed

lemma inputs_fold_add: "inputs (fold add xs p) = inputs p @ xs"
  by (induction xs arbitrary: p) (simp_all add: add_def)

lemma distinctList_fold_add: "distinctList (fold add xs p) = distinctList p"
  by (induction xs arbitrary: p) (simp_all add: add_def)

lemma comparator_fold_add: "comparator (fold add xs p) = comparator p"
  by (induction xs arbitrary: p) (simp_all add: add_def)

lemma comparatorCalls_fold_add: "comparatorCalls (fold add xs p) = comparatorCalls p"
  by (induction xs arbitrary: p) (simp_all add: add_def)

lemma pulls_buffer:
  "distinctList p = Some K \<Longrightarrow>
   DistinctProcessor_pulls (length K) p = (map ofNullable K, p\<lparr>distinctList := Some []\<rparr>)"
proof (induction K arbitrary: p)
  case Nil
  then show ?case by simp
next
  case (Cons k K)
  have "DistinctProcessor_processAndGetNext p = (ofNullable k, p\<lparr>distinctList := Some K\<rparr>)"
    using Cons.prems by simp
  moreover have "DistinctProcessor_pulls (length K) (p\<lparr>distinctList := Some K\<rparr>)
      = (map ofNullable K, p\<lparr>distinctList := Some K\<rparr>\<lparr>distinctList := Some []\<rparr>)"
    by (rule Cons.IH) simp
  ultimately show ?case by simp
qed

lemma firstOccurrences_Nil_iff: "(firstOccurrences eq [] xs = []) = (xs = [])"
  by (cases xs) simp_all

lemma processValues_fresh:
  "processValues (fold add xs (distinctProcessor eq)) =
     (fold add xs (distinctProcessor eq))
       \<lparr>inputs := [], distinctList := Some (firstOccurrences eq [] xs),
        comparatorCalls := snd (fold (forEachItem eq) xs ([], []))\<rparr>"
proof -
  have c: "comparator (fold add xs (distinctProcessor eq)) = eq"
    by (simp add: comparator_fold_add distinctProcessor_def)
  have i: "inputs (fold add xs (distinctProcessor eq)) = xs"
    by (simp add: inputs_fold_add distinctProcessor_def)
  have k: "comparatorCalls (fold add xs (distinctProcessor eq)) = []"
    by (simp add: comparatorCalls_fold_add distinctProcessor_def)
  have f: "fst (fold (forEachItem eq) xs ([], [])) = firstOccurrences eq [] xs"
    using fold_forEachItem_fst [of eq xs "[]" "[]"] by simp
  show ?thesis
    unfolding processValues_def c i k using f by (simp add: case_prod_beta)
qed

subsection \<open>What the distinct processor emits\<close>

text \<open>
  Claim C3. A distinct processor that was given the inputs \<open>xs\<close> (any list, any equality
  test) hands out, call after call of \<open>processAndGetNext\<close>, the elements of \<open>xs\<close> that have
  no equal predecessor among the elements kept before them, in the order of their first
  occurrence, and \<open>hasNext\<close> is false after the last of them. Each element is handed out
  through \<open>Optional.ofNullable\<close>: a kept element that is \<open>undefined\<close> or \<open>null\<close> comes out
  as the empty optional. With the default equality, the inputs \<open>[1,2,2,3,1]\<close> give
  \<open>[1,2,3]\<close>.
\<close>

theorem distinct_first_occurrences:
  "fst (DistinctProcessor_pulls (length (firstOccurrences eq [] xs))
         (fold add xs (distinctProcessor eq)))
     = map ofNullable (firstOccurrences eq [] xs)
   \<and> \<not> DistinctProcessor_hasNext
         (snd (DistinctProcessor_pulls (length (firstOccurrences eq [] xs))
                (fold add xs (distinctProcessor eq))))
   \<and> fst (DistinctProcessor_pulls 3
         (fold add [Val 1, Val 2, Val 2, Val 3, Val (1::int)] (distinctProcessor defaultEquality)))
     = [Some 1, Some 2, Some 3]"
proof (intro conjI)
  let ?p = "fold add xs (distinctProcessor eq)"
  let ?K = "firstOccurrences eq [] xs"
  show "fst (DistinctProcessor_pulls (length ?K) ?p) = map ofNullable ?K"
   and "\<not> DistinctProcessor_hasNext (snd (DistinctProcessor_pulls (length ?K) ?p))"
  proof -
    let ?q = "processValues ?p"
    have dq: "distinctList ?q = Some ?K" and iq: "inputs ?q = []"
      by (simp_all add: processValues_fresh)
    have dp: "distinctList ?p = None"
      by (simp add: distinctList_fold_add distinctProcessor_def)
    have both: "fst (DistinctProcessor_pulls (length ?K) ?p) = map ofNullable ?K
        \<and> \<not> DistinctProcessor_hasNext (snd (DistinctProcessor_pulls (length ?K) ?p))"
    proof (cases ?K)
      case Nil
      then have "xs = []" by (simp add: firstOccurrences_Nil_iff)
      then show ?thesis
        by (simp add: DistinctProcessor_hasNext_def distinctProcessor_def)
    next
      case (Cons k K')
      have first: "DistinctProcessor_processAndGetNext ?p
          = (ofNullable k, ?q\<lparr>distinctList := Some K'\<rparr>)"
        using dp dq Cons by (subst DistinctProcessor_processAndGetNext.simps) simp
      have rest: "DistinctProcessor_pulls (length K') (?q\<lparr>distinctList := Some K'\<rparr>)
          = (map ofNullable K', ?q\<lparr>distinctList := Some K'\<rparr>\<lparr>distinctList := Some []\<rparr>)"
        by (rule pulls_buffer) simp
      show ?thesis
        using first rest iq unfolding Cons
        by (simp add: DistinctProcessor_hasNext_def)
    qed
    show "fst (DistinctProcessor_pulls (length ?K) ?p) = map ofNullable ?K"
      using both by blast
    show "\<not> DistinctProcessor_hasNext (snd (DistinctProcessor_pulls (length ?K) ?p))"
      using both by blast
  qed
  show "fst (DistinctProcessor_pulls 3
         (fold add [Val 1, Val 2, Val 2, Val 3, Val (1::int)] (distinctProcessor defaultEquality)))
     = [Some 1, Some 2, Some 3]"
    by (simp add: eval_nat_numeral add_def distinctProcessor_def processValues_def
        forEachItem_def defaultEquality_def)
qed

lemma processAndGetNext_present:
  "distinctList p = Some b \<Longrightarrow>
   DistinctProcessor_processAndGetNext p
     = (ofNullable (fst (shift b)), p\<lparr>distinctList := Some (snd (shift b))\<rparr>)"
  by (simp add: case_prod_beta)

lemma processValues_fields:
  "inputs (processValues p) = []"
  "distinctList (processValues p) = Some (firstOccurrences (comparator p) [] (inputs p))"
  "comparator (processValues p) = comparator p"
  using fold_forEachItem_fst [of "comparator p" "inputs p" "[]" "comparatorCalls p"]
  by (simp_all add: processValues_def case_prod_beta)

lemma processAndGetNext_first:
  "distinctList p = None \<Longrightarrow>
   DistinctProcessor_processAndGetNext p
     = (ofNullable (fst (shift (firstOccurrences (comparator p) [] (inputs p)))),
        (processValues p)\<lparr>distinctList :=
            Some (snd (shift (firstOccurrences (comparator p) [] (inputs p))))\<rparr>)"
  by (subst DistinctProcessor_processAndGetNext.simps)
     (simp add: processValues_fields case_prod_beta)

subsection \<open>The contract of the stateful stage\<close>

text \<open>
  Claim C2. For the distinct processor: \<open>add\<close> appends its argument to the input queue and
  does nothing else (the equality test is not invoked, no buffer appears, and \<open>add\<close>
  returns nothing); however many inputs are added to a new processor, it has computed
  nothing as long as \<open>processAndGetNext\<close> has not been called. The first call of
  \<open>processAndGetNext\<close> (the buffer does not exist yet) empties the input queue, computes
  the whole buffer from all the queued inputs, and returns the first element of that
  buffer. Every later call (the buffer exists) takes one element off the buffer, or
  returns the empty optional when the buffer is empty, and touches neither the input
  queue nor the equality test.
\<close>

theorem distinct_stateful_contract:
  "(comparatorCalls (add x p) = comparatorCalls p
      \<and> distinctList (add x p) = distinctList p
      \<and> inputs (add x p) = inputs p @ [x])
   \<and> (distinctList (fold add xs (distinctProcessor eq)) = None
      \<and> comparatorCalls (fold add xs (distinctProcessor eq)) = [])
   \<and> (distinctList p = None \<longrightarrow>
        fst (DistinctProcessor_processAndGetNext p)
          = ofNullable (fst (shift (firstOccurrences (comparator p) [] (inputs p))))
        \<and> inputs (snd (DistinctProcessor_processAndGetNext p)) = []
        \<and> distinctList (snd (DistinctProcessor_processAndGetNext p))
          = Some (snd (shift (firstOccurrences (comparator p) [] (inputs p)))))
   \<and> (distinctList q = Some b \<longrightarrow>
        DistinctProcessor_processAndGetNext q
          = (ofNullable (fst (shift b)), q\<lparr>distinctList := Some (snd (shift b))\<rparr>))"
  using processAndGetNext_first [of p] processAndGetNext_present [of q b]
  by (simp add: add_def distinctList_fold_add comparatorCalls_fold_add distinctProcessor_def
      processValues_fields)

theorem distinct_stateful_contract_witness:
  "distinctList (fold add [Val 1, Val 2, Val (1::int)] (distinctProcessor defaultEquality)) = None
   \<and> fst (DistinctProcessor_processAndGetNext
         (fold add [Val 1, Val 2, Val (1::int)] (distinctProcessor defaultEquality))) = Some 1
   \<and> inputs (snd (DistinctProcessor_processAndGetNext
         (fold add [Val 1, Val 2, Val (1::int)] (distinctProcessor defaultEquality)))) = []
   \<and> distinctList (snd (DistinctProcessor_processAndGetNext
         (fold add [Val 1, Val 2, Val (1::int)] (distinctProcessor defaultEquality)))) = Some [Val 2]
   \<and> distinctList \<lparr>inputs = [Val 9], comparator = defaultEquality,
         distinctList = Some [Val (2::int)], comparatorCalls = []\<rparr> = Some [Val 2]
   \<and> DistinctProcessor_processAndGetNext \<lparr>inputs = [Val 9], comparator = defaultEquality,
         distinctList = Some [Val (2::int)], comparatorCalls = []\<rparr>
       = (Some 2, \<lparr>inputs = [Val 9], comparator = defaultEquality,
                   distinctList = Some [], comparatorCalls = []\<rparr>)"
  using distinct_stateful_contract
    [of "Val 0" "fold add [Val 1, Val 2, Val (1::int)] (distinctProcessor defaultEquality)"
        "[]" defaultEquality
        "\<lparr>inputs = [Val 9], comparator = defaultEquality,
          distinctList = Some [Val (2::int)], comparatorCalls = []\<rparr>" "[Val 2]"]
  by (simp add: add_def distinctProcessor_def defaultEquality_def)

subsection \<open>Inputs added after the first call\<close>

lemma run_after_first:
  "distinctList p = Some b \<Longrightarrow>
   DistinctProcessor_run cs p
     = (map ofNullable (take (pullCount cs) b) @ replicate (pullCount cs - length b) None,
        p\<lparr>inputs := inputs p @ added cs, distinctList := Some (drop (pullCount cs) b)\<rparr>)"
proof (induction cs arbitrary: p b)
  case Nil
  then show ?case by simp
next
  case (Cons c cs)
  show ?case
  proof (cases c)
    case (Add x)
    have "distinctList (add x p) = Some b"
      using Cons.prems by (simp add: add_def)
    from Cons.IH [OF this] show ?thesis
      using Add by (simp add: add_def)
  next
    case ProcessAndGetNext
    let ?p' = "p\<lparr>distinctList := Some (snd (shift b))\<rparr>"
    have step: "DistinctProcessor_processAndGetNext p = (ofNullable (fst (shift b)), ?p')"
      using Cons.prems by (rule processAndGetNext_present)
    have "distinctList ?p' = Some (snd (shift b))" by simp
    from Cons.IH [OF this] have rest: "DistinctProcessor_run cs ?p'
       = (map ofNullable (take (pullCount cs) (snd (shift b)))
            @ replicate (pullCount cs - length (snd (shift b))) None,
          ?p'\<lparr>inputs := inputs ?p' @ added cs,
               distinctList := Some (drop (pullCount cs) (snd (shift b)))\<rparr>)" .
    show ?thesis
    proof (cases b)
      case Nil
      then show ?thesis
        using ProcessAndGetNext step rest
        by (simp add: replicate_append_same)
    next
      case (Cons k K)
      then show ?thesis
        using ProcessAndGetNext step rest by simp
    qed
  qed
qed

lemma processAndGetNext_buffered:
  "\<exists>b. distinctList (snd (DistinctProcessor_processAndGetNext p)) = Some b"
  by (induction p rule: DistinctProcessor_processAndGetNext.induct)
     (subst DistinctProcessor_processAndGetNext.simps, simp add: case_prod_beta split: option.splits)

text \<open>
  Claim C10. Take the distinct processor as any call of \<open>processAndGetNext\<close> leaves it,
  the first one included, and make any further calls \<open>cs\<close> of \<open>add\<close> and
  \<open>processAndGetNext\<close> on it. The buffer \<open>b\<close> exists; the calls of \<open>processAndGetNext\<close>
  return the elements of \<open>b\<close> in order and then the empty optional, whatever was added
  in between; the equality test is not invoked again; the added elements pile up in the
  input queue; and when at least one element was added, \<open>hasNext\<close> is true at the end.
\<close>

theorem late_inputs_never_emitted:
  "\<exists>b. distinctList (snd (DistinctProcessor_processAndGetNext p0)) = Some b
     \<and> fst (DistinctProcessor_run cs (snd (DistinctProcessor_processAndGetNext p0)))
         = map ofNullable (take (pullCount cs) b) @ replicate (pullCount cs - length b) None
     \<and> comparatorCalls (snd (DistinctProcessor_run cs (snd (DistinctProcessor_processAndGetNext p0))))
         = comparatorCalls (snd (DistinctProcessor_processAndGetNext p0))
     \<and> inputs (snd (DistinctProcessor_run cs (snd (DistinctProcessor_processAndGetNext p0))))
         = inputs (snd (DistinctProcessor_processAndGetNext p0)) @ added cs
     \<and> (added cs \<noteq> [] \<longrightarrow>
          DistinctProcessor_hasNext
            (snd (DistinctProcessor_run cs (snd (DistinctProcessor_processAndGetNext p0)))))"
proof -
  obtain b where b: "distinctList (snd (DistinctProcessor_processAndGetNext p0)) = Some b"
    using processAndGetNext_buffered by blast
  show ?thesis
    using b run_after_first [OF b, of cs]
    by (simp add: DistinctProcessor_hasNext_def)
qed

theorem late_inputs_never_emitted_witness:
  "added [ProcessAndGetNext, Add (Val (7::int)), ProcessAndGetNext, ProcessAndGetNext] \<noteq> []
   \<and> fst (DistinctProcessor_processAndGetNext
         (fold add [Val 1, Val 2, Val (1::int)] (distinctProcessor defaultEquality))) = Some 1
   \<and> fst (DistinctProcessor_run [ProcessAndGetNext, Add (Val 7), ProcessAndGetNext, ProcessAndGetNext]
         (snd (DistinctProcessor_processAndGetNext
           (fold add [Val 1, Val 2, Val (1::int)] (distinctProcessor defaultEquality)))))
       = [Some 2, None, None]
   \<and> DistinctProcessor_hasNext
        (snd (DistinctProcessor_run [ProcessAndGetNext, Add (Val 7), ProcessAndGetNext, ProcessAndGetNext]
          (snd (DistinctProcessor_processAndGetNext
            (fold add [Val 1, Val 2, Val (1::int)] (distinctProcessor defaultEquality))))))"
proof -
  let ?cs = "[ProcessAndGetNext, Add (Val (7::int)), ProcessAndGetNext, ProcessAndGetNext]"
  let ?p0 = "fold add [Val 1, Val 2, Val (1::int)] (distinctProcessor defaultEquality)"
  have a: "added ?cs \<noteq> []" by simp
  have h: "DistinctProcessor_hasNext
        (snd (DistinctProcessor_run ?cs (snd (DistinctProcessor_processAndGetNext ?p0))))"
    using late_inputs_never_emitted [of ?p0 ?cs] a by blast
  have e: "DistinctProcessor_processAndGetNext ?p0
      = (Some 1, \<lparr>inputs = [], comparator = defaultEquality, distinctList = Some [Val 2],
                  comparatorCalls = [(Val 2, Val 1), (Val 1, Val 1), (Val 1, Val 2)]\<rparr>)"
    by (simp add: add_def distinctProcessor_def processValues_def forEachItem_def
        defaultEquality_def)
  show ?thesis
    using a h unfolding e by (simp add: add_def)
qed

subsection \<open>An undefined input of a stateless stage\<close>

text \<open>
  Claim C9 says that an \<open>undefined\<close> element at the head of the queue is
  indistinguishable, at the stage interface, from the queue holding no input at all.
  It is not: \<open>hasNext\<close>, a method of the interface, is true of a map processor or a
  filter processor whose queue holds \<open>undefined\<close> and false of one whose queue is empty.
\<close>

theorem undefined_head_seen_by_hasNext:
  "hasNext (add Undefined (mapProcessor (\<lambda>n::int. Val (n + 1))))
   \<and> \<not> hasNext (mapProcessor (\<lambda>n::int. Val (n + 1)))
   \<and> hasNext (add Undefined (filterProcessor (\<lambda>n::int. 0 < n)))
   \<and> \<not> hasNext (filterProcessor (\<lambda>n::int. 0 < n))"
  by (simp add: hasNext_def add_def mapProcessor_def filterProcessor_def)

text \<open>
  Claim C9 as amended. When the head of the input queue of a map processor or of a
  filter processor is \<open>undefined\<close>, \<open>processAndGetNext\<close> takes it off the queue and
  returns the empty optional, and the transformer or predicate is not invoked (the
  record of its calls is unchanged, as is every other field): the element is dropped.
  What the call returns is what it returns on an empty queue. \<open>hasNext\<close> tells the two
  apart: it is true while the \<open>undefined\<close> element is queued and false on the empty
  queue.
\<close>

theorem undefined_head_dropped:
  "(inputs m = Undefined # rest \<longrightarrow>
      MapProcessor_processAndGetNext m = (None, m\<lparr>inputs := rest\<rparr>)
      \<and> fst (MapProcessor_processAndGetNext m)
          = fst (MapProcessor_processAndGetNext (m\<lparr>inputs := []\<rparr>))
      \<and> hasNext m \<and> \<not> hasNext (m\<lparr>inputs := []\<rparr>))
   \<and> (inputs f = Undefined # rest' \<longrightarrow>
      FilterProcessor_processAndGetNext f = (None, f\<lparr>inputs := rest'\<rparr>)
      \<and> fst (FilterProcessor_processAndGetNext f)
          = fst (FilterProcessor_processAndGetNext (f\<lparr>inputs := []\<rparr>))
      \<and> hasNext f \<and> \<not> hasNext (f\<lparr>inputs := []\<rparr>))"
  by (simp add: MapProcessor_processAndGetNext_def FilterProcessor_processAndGetNext_def
      takeNextInput_def hasNext_def)

theorem undefined_head_dropped_witness:
  "inputs (add (Val 5) (add Undefined (mapProcessor (\<lambda>n::int. Val (n + 1))))) = [Undefined, Val 5]
   \<and> MapProcessor_processAndGetNext (add (Val 5) (add Undefined (mapProcessor (\<lambda>n::int. Val (n + 1)))))
       = (None, \<lparr>inputs = [Val 5], transformer = (\<lambda>n. Val (n + 1)), transformerCalls = []\<rparr>)
   \<and> hasNext (add (Val 5) (add Undefined (mapProcessor (\<lambda>n::int. Val (n + 1)))))
   \<and> inputs (add (Val 5) (add Undefined (filterProcessor (\<lambda>n::int. 0 < n)))) = [Undefined, Val 5]
   \<and> FilterProcessor_processAndGetNext (add (Val 5) (add Undefined (filterProcessor (\<lambda>n::int. 0 < n))))
       = (None, \<lparr>inputs = [Val 5], predicate = (\<lambda>n. 0 < n), predicateCalls = []\<rparr>)
   \<and> hasNext (add (Val 5) (add Undefined (filterProcessor (\<lambda>n::int. 0 < n))))"
  using undefined_head_dropped
    [of "add (Val 5) (add Undefined (mapProcessor (\<lambda>n::int. Val (n + 1))))" "[Val 5]"
        "add (Val 5) (add Undefined (filterProcessor (\<lambda>n::int. 0 < n)))" "[Val 5]"]
  by (simp add: add_def mapProcessor_def filterProcessor_def)

section \<open>Properties of the terminal operations\<close>

subsection \<open>Helper lemmas\<close>

lemma getNextResult_source:
  "stages pl = [] \<Longrightarrow> getNextResult pn pl
     = Some (fst (pn (source pl)),
             pl\<lparr>source := snd (pn (source pl)), sourcePulls := sourcePulls pl + 1\<rparr>)"
  by (subst getNextResult.simps) (simp add: case_prod_beta)

lemma pulls_Suc_Some:
  "pulls gnr (Suc n) pl = Some (r # rs, pl') \<longleftrightarrow>
     (\<exists>pl1. gnr pl = Some (r, pl1) \<and> pulls gnr n pl1 = Some (rs, pl'))"
  by (auto split: option.splits)

lemma pulls_first:
  assumes "pulls gnr (Suc (length (x # xs))) pl = Some (map Some (x # xs) @ [r], pl')"
  obtains pl1 where "gnr pl = Some (Some x, pl1)"
    and "pulls gnr (Suc (length xs)) pl1 = Some (map Some xs @ [r], pl')"
  using assms
    pulls_Suc_Some [of gnr "Suc (length xs)" pl "Some x" "map Some xs @ [r]" pl']
  by auto

lemma pulls_last:
  "pulls gnr (Suc 0) pl = Some ([r], pl') \<Longrightarrow> gnr pl = Some (r, pl')"
  by (auto split: option.splits)

lemma allMatch_loop_prefix:
  "pulls gnr (Suc (length xs)) (pipeline s) = Some (map Some xs @ [r], pl') \<Longrightarrow>
   \<forall>y\<in>set xs. pred y \<Longrightarrow>
   Option.bind (getNextProcessedItem gnr s) (\<lambda>(n, s'). allMatch_loop gnr pred n s' calls)
     = allMatch_loop gnr pred r
         (s\<lparr>pipeline := pl', processingStarted := True, pulled := pulled s + Suc (length xs)\<rparr>)
         (calls @ xs)"
proof (induction xs arbitrary: s calls)
  case Nil
  then have "gnr (pipeline s) = Some (r, pl')" by (simp add: pulls_last)
  then show ?case by (simp add: getNextProcessedItem_def)
next
  case (Cons x xs)
  from Cons.prems(1) obtain pl1 where g: "gnr (pipeline s) = Some (Some x, pl1)"
    and rest: "pulls gnr (Suc (length xs)) pl1 = Some (map Some xs @ [r], pl')"
    by (rule pulls_first)
  let ?s1 = "s\<lparr>pipeline := pl1, processingStarted := True, pulled := pulled s + 1\<rparr>"
  have px: "pred x" and pxs: "\<forall>y\<in>set xs. pred y" using Cons.prems(2) by simp_all
  have rest': "pulls gnr (Suc (length xs)) (pipeline ?s1) = Some (map Some xs @ [r], pl')"
    using rest by simp
  have "Option.bind (getNextProcessedItem gnr s) (\<lambda>(n, s'). allMatch_loop gnr pred n s' calls)
      = allMatch_loop gnr pred (Some x) ?s1 calls"
    using g by (simp add: getNextProcessedItem_def)
  also have "\<dots> = Option.bind (getNextProcessedItem gnr ?s1)
                     (\<lambda>(n, s'). allMatch_loop gnr pred n s' (calls @ [x]))"
    using px by (subst allMatch_loop.simps) simp
  also have "\<dots> = allMatch_loop gnr pred r
         (?s1\<lparr>pipeline := pl', processingStarted := True, pulled := pulled ?s1 + Suc (length xs)\<rparr>)
         ((calls @ [x]) @ xs)"
    by (rule Cons.IH [OF rest' pxs])
  finally show ?case by simp
qed

lemma anyMatch_loop_prefix:
  "pulls gnr (Suc (length xs)) (pipeline s) = Some (map Some xs @ [r], pl') \<Longrightarrow>
   \<forall>y\<in>set xs. \<not> pred y \<Longrightarrow>
   Option.bind (getNextProcessedItem gnr s) (\<lambda>(n, s'). anyMatch_loop gnr pred n s' calls)
     = anyMatch_loop gnr pred r
         (s\<lparr>pipeline := pl', processingStarted := True, pulled := pulled s + Suc (length xs)\<rparr>)
         (calls @ xs)"
proof (induction xs arbitrary: s calls)
  case Nil
  then have "gnr (pipeline s) = Some (r, pl')" by (simp add: pulls_last)
  then show ?case by (simp add: getNextProcessedItem_def)
next
  case (Cons x xs)
  from Cons.prems(1) obtain pl1 where g: "gnr (pipeline s) = Some (Some x, pl1)"
    and rest: "pulls gnr (Suc (length xs)) pl1 = Some (map Some xs @ [r], pl')"
    by (rule pulls_first)
  let ?s1 = "s\<lparr>pipeline := pl1, processingStarted := True, pulled := pulled s + 1\<rparr>"
  have px: "\<not> pred x" and pxs: "\<forall>y\<in>set xs. \<not> pred y" using Cons.prems(2) by simp_all
  have rest': "pulls gnr (Suc (length xs)) (pipeline ?s1) = Some (map Some xs @ [r], pl')"
    using rest by simp
  have "Option.bind (getNextProcessedItem gnr s) (\<lambda>(n, s'). anyMatch_loop gnr pred n s' calls)
      = anyMatch_loop gnr pred (Some x) ?s1 calls"
    using g by (simp add: getNextProcessedItem_def)
  also have "\<dots> = Option.bind (getNextProcessedItem gnr ?s1)
                     (\<lambda>(n, s'). anyMatch_loop gnr pred n s' (calls @ [x]))"
    using px by (subst anyMatch_loop.simps) simp
  also have "\<dots> = anyMatch_loop gnr pred r
         (?s1\<lparr>pipeline := pl', processingStarted := True, pulled := pulled ?s1 + Suc (length xs)\<rparr>)
         ((calls @ [x]) @ xs)"
    by (rule Cons.IH [OF rest' pxs])
  finally show ?case by simp
qed

lemma noneMatch_loop_prefix:
  "pulls gnr (Suc (length xs)) (pipeline s) = Some (map Some xs @ [r], pl') \<Longrightarrow>
   \<forall>y\<in>set xs. \<not> pred y \<Longrightarrow>
   Option.bind (getNextProcessedItem gnr s) (\<lambda>(n, s'). noneMatch_loop gnr pred n s' calls)
     = noneMatch_loop gnr pred r
         (s\<lparr>pipeline := pl', processingStarted := True, pulled := pulled s + Suc (length xs)\<rparr>)
         (calls @ xs)"
proof (induction xs arbitrary: s calls)
  case Nil
  then have "gnr (pipeline s) = Some (r, pl')" by (simp add: pulls_last)
  then show ?case by (simp add: getNextProcessedItem_def)
next
  case (Cons x xs)
  from Cons.prems(1) obtain pl1 where g: "gnr (pipeline s) = Some (Some x, pl1)"
    and rest: "pulls gnr (Suc (length xs)) pl1 = Some (map Some xs @ [r], pl')"
    by (rule pulls_first)
  let ?s1 = "s\<lparr>pipeline := pl1, processingStarted := True, pulled := pulled s + 1\<rparr>"
  have px: "\<not> pred x" and pxs: "\<forall>y\<in>set xs. \<not> pred y" using Cons.prems(2) by simp_all
  have rest': "pulls gnr (Suc (length xs)) (pipeline ?s1) = Some (map Some xs @ [r], pl')"
    using rest by simp
  have "Option.bind (getNextProcessedItem gnr s) (\<lambda>(n, s'). noneMatch_loop gnr pred n s' calls)
      = noneMatch_loop gnr pred (Some x) ?s1 calls"
    using g by (simp add: getNextProcessedItem_def)
  also have "\<dots> = Option.bind (getNextProcessedItem gnr ?s1)
                     (\<lambda>(n, s'). noneMatch_loop gnr pred n s' (calls @ [x]))"
    using px by (subst noneMatch_loop.simps) simp
  also have "\<dots> = noneMatch_loop gnr pred r
         (?s1\<lparr>pipeline := pl', processingStarted := True, pulled := pulled ?s1 + Suc (length xs)\<rparr>)
         ((calls @ [x]) @ xs)"
    by (rule Cons.IH [OF rest' pxs])
  finally show ?case by simp
qed

subsection \<open>The match operations\<close>

text \<open>
  Claim C4. Whatever the predicate, on a stream whose first pull returns the empty
  optional \<open>allMatch\<close> returns true, \<open>anyMatch\<close> false and \<open>noneMatch\<close> true, after that
  one pull and with no call of the predicate. On a stream whose pulls return the
  elements \<open>xs\<close> and then \<open>x\<close>: when \<open>xs\<close> satisfy the predicate and \<open>x\<close> does not,
  \<open>allMatch\<close> returns false; when \<open>xs\<close> fail the predicate and \<open>x\<close> satisfies it, \<open>anyMatch\<close>
  returns true and \<open>noneMatch\<close> false. In each case the operation has made the pulls up
  to \<open>x\<close> and no more (the stream is left as those pulls leave it, and \<open>pulled\<close> has grown
  by their number), and the predicate has been called on \<open>xs\<close> and \<open>x\<close> only.
\<close>

theorem match_short_circuit:
  "(gnr (pipeline s0) = Some (None, pl0) \<longrightarrow>
      allMatch gnr pred s0
        = Some (True, s0\<lparr>pipeline := pl0, processingStarted := True, pulled := pulled s0 + 1\<rparr>, [])
      \<and> anyMatch gnr pred s0
        = Some (False, s0\<lparr>pipeline := pl0, processingStarted := True, pulled := pulled s0 + 1\<rparr>, [])
      \<and> noneMatch gnr pred s0
        = Some (True, s0\<lparr>pipeline := pl0, processingStarted := True, pulled := pulled s0 + 1\<rparr>, []))
   \<and> (pulls gnr (Suc (length xs)) (pipeline s1) = Some (map Some xs @ [Some x], pl1)
        \<and> (\<forall>y\<in>set xs. pred y) \<and> \<not> pred x \<longrightarrow>
      allMatch gnr pred s1
        = Some (False,
                s1\<lparr>pipeline := pl1, processingStarted := True,
                   pulled := pulled s1 + Suc (length xs)\<rparr>,
                xs @ [x]))
   \<and> (pulls gnr (Suc (length ys)) (pipeline s2) = Some (map Some ys @ [Some y], pl2)
        \<and> (\<forall>z\<in>set ys. \<not> pred z) \<and> pred y \<longrightarrow>
      anyMatch gnr pred s2
        = Some (True,
                s2\<lparr>pipeline := pl2, processingStarted := True,
                   pulled := pulled s2 + Suc (length ys)\<rparr>,
                ys @ [y])
      \<and> noneMatch gnr pred s2
        = Some (False,
                s2\<lparr>pipeline := pl2, processingStarted := True,
                   pulled := pulled s2 + Suc (length ys)\<rparr>,
                ys @ [y]))"
proof (intro conjI impI)
  assume e: "gnr (pipeline s0) = Some (None, pl0)"
  show "allMatch gnr pred s0
        = Some (True, s0\<lparr>pipeline := pl0, processingStarted := True, pulled := pulled s0 + 1\<rparr>, [])"
    using e by (simp add: allMatch_def getNextProcessedItem_def allMatch_loop.simps)
  show "anyMatch gnr pred s0
        = Some (False, s0\<lparr>pipeline := pl0, processingStarted := True, pulled := pulled s0 + 1\<rparr>, [])"
    using e by (simp add: anyMatch_def getNextProcessedItem_def anyMatch_loop.simps)
  show "noneMatch gnr pred s0
        = Some (True, s0\<lparr>pipeline := pl0, processingStarted := True, pulled := pulled s0 + 1\<rparr>, [])"
    using e by (simp add: noneMatch_def getNextProcessedItem_def noneMatch_loop.simps)
next
  assume a: "pulls gnr (Suc (length xs)) (pipeline s1) = Some (map Some xs @ [Some x], pl1)
        \<and> (\<forall>y\<in>set xs. pred y) \<and> \<not> pred x"
  then have "allMatch gnr pred s1 = allMatch_loop gnr pred (Some x)
         (s1\<lparr>pipeline := pl1, processingStarted := True, pulled := pulled s1 + Suc (length xs)\<rparr>)
         ([] @ xs)"
    unfolding allMatch_def by (intro allMatch_loop_prefix) simp_all
  also have "\<dots> = Some (False,
                s1\<lparr>pipeline := pl1, processingStarted := True,
                   pulled := pulled s1 + Suc (length xs)\<rparr>, xs @ [x])"
    using a by (subst allMatch_loop.simps) simp
  finally show "allMatch gnr pred s1
        = Some (False,
                s1\<lparr>pipeline := pl1, processingStarted := True,
                   pulled := pulled s1 + Suc (length xs)\<rparr>,
                xs @ [x])" .
next
  assume a: "pulls gnr (Suc (length ys)) (pipeline s2) = Some (map Some ys @ [Some y], pl2)
        \<and> (\<forall>z\<in>set ys. \<not> pred z) \<and> pred y"
  then have "anyMatch gnr pred s2 = anyMatch_loop gnr pred (Some y)
         (s2\<lparr>pipeline := pl2, processingStarted := True, pulled := pulled s2 + Suc (length ys)\<rparr>)
         ([] @ ys)"
    unfolding anyMatch_def by (intro anyMatch_loop_prefix) simp_all
  also have "\<dots> = Some (True,
                s2\<lparr>pipeline := pl2, processingStarted := True,
                   pulled := pulled s2 + Suc (length ys)\<rparr>, ys @ [y])"
    using a by (subst anyMatch_loop.simps) simp
  finally show "anyMatch gnr pred s2
        = Some (True,
                s2\<lparr>pipeline := pl2, processingStarted := True,
                   pulled := pulled s2 + Suc (length ys)\<rparr>,
                ys @ [y])" .
  from a have "noneMatch gnr pred s2 = noneMatch_loop gnr pred (Some y)
         (s2\<lparr>pipeline := pl2, processingStarted := True, pulled := pulled s2 + Suc (length ys)\<rparr>)
         ([] @ ys)"
    unfolding noneMatch_def by (intro noneMatch_loop_prefix) simp_all
  also have "\<dots> = Some (False,
                s2\<lparr>pipeline := pl2, processingStarted := True,
                   pulled := pulled s2 + Suc (length ys)\<rparr>, ys @ [y])"
    using a by (subst noneMatch_loop.simps) simp
  finally show "noneMatch gnr pred s2
        = Some (False,
                s2\<lparr>pipeline := pl2, processingStarted := True,
                   pulled := pulled s2 + Suc (length ys)\<rparr>,
                ys @ [y])" .
qed

theorem match_short_circuit_witness:
  "getNextResult ArraySource_produceNext (pipeline (Stream_of ([]::int list)))
      = Some (None, \<lparr>source = [], stages = [], sourcePulls = 1\<rparr>)
   \<and> allMatch (getNextResult ArraySource_produceNext) (\<lambda>n::int. even n) (Stream_of ([]::int list))
      = Some (True, \<lparr>pipeline = \<lparr>source = [], stages = [], sourcePulls = 1\<rparr>,
                     processingStarted = True, pulled = 1\<rparr>, [])
   \<and> anyMatch (getNextResult ArraySource_produceNext) (\<lambda>n::int. even n) (Stream_of ([]::int list))
      = Some (False, \<lparr>pipeline = \<lparr>source = [], stages = [], sourcePulls = 1\<rparr>,
                     processingStarted = True, pulled = 1\<rparr>, [])
   \<and> noneMatch (getNextResult ArraySource_produceNext) (\<lambda>n::int. even n) (Stream_of ([]::int list))
      = Some (True, \<lparr>pipeline = \<lparr>source = [], stages = [], sourcePulls = 1\<rparr>,
                     processingStarted = True, pulled = 1\<rparr>, [])
   \<and> pulls (getNextResult ArraySource_produceNext) (Suc (length [2, 4::int]))
        (pipeline (Stream_of [2, 4, 5, 6::int]))
      = Some (map Some [2, 4::int] @ [Some 5], \<lparr>source = [6], stages = [], sourcePulls = 3\<rparr>)
   \<and> even (2::int) \<and> even (4::int) \<and> \<not> even (5::int)
   \<and> allMatch (getNextResult ArraySource_produceNext) (\<lambda>n::int. even n) (Stream_of [2, 4, 5, 6::int])
      = Some (False, \<lparr>pipeline = \<lparr>source = [6], stages = [], sourcePulls = 3\<rparr>,
                      processingStarted = True, pulled = 3\<rparr>, [2, 4, 5])
   \<and> pulls (getNextResult ArraySource_produceNext) (Suc (length [1, 3::int]))
        (pipeline (Stream_of [1, 3, 4, 5::int]))
      = Some (map Some [1, 3::int] @ [Some 4], \<lparr>source = [5], stages = [], sourcePulls = 3\<rparr>)
   \<and> \<not> even (1::int) \<and> \<not> even (3::int) \<and> even (4::int)
   \<and> anyMatch (getNextResult ArraySource_produceNext) (\<lambda>n::int. even n) (Stream_of [1, 3, 4, 5::int])
      = Some (True, \<lparr>pipeline = \<lparr>source = [5], stages = [], sourcePulls = 3\<rparr>,
                     processingStarted = True, pulled = 3\<rparr>, [1, 3, 4])
   \<and> noneMatch (getNextResult ArraySource_produceNext) (\<lambda>n::int. even n) (Stream_of [1, 3, 4, 5::int])
      = Some (False, \<lparr>pipeline = \<lparr>source = [5], stages = [], sourcePulls = 3\<rparr>,
                      processingStarted = True, pulled = 3\<rparr>, [1, 3, 4])"
proof -
  let ?g = "getNextResult ArraySource_produceNext :: (int list, int) ProcessorPipeline \<Rightarrow> _"
  have h0: "?g (pipeline (Stream_of [])) = Some (None, \<lparr>source = [], stages = [], sourcePulls = 1\<rparr>)"
    by (simp add: getNextResult_source Stream_of_def ofSource_def newPipelineStream_def
        ProcessorPipeline_create_def arraySource_def)
  have h1: "pulls ?g (Suc (length [2, 4::int])) (pipeline (Stream_of [2, 4, 5, 6]))
      = Some (map Some [2, 4] @ [Some 5], \<lparr>source = [6], stages = [], sourcePulls = 3\<rparr>)"
    by (simp add: getNextResult_source Stream_of_def ofSource_def newPipelineStream_def
        ProcessorPipeline_create_def arraySource_def)
  have h2: "pulls ?g (Suc (length [1, 3::int])) (pipeline (Stream_of [1, 3, 4, 5]))
      = Some (map Some [1, 3] @ [Some 4], \<lparr>source = [5], stages = [], sourcePulls = 3\<rparr>)"
    by (simp add: getNextResult_source Stream_of_def ofSource_def newPipelineStream_def
        ProcessorPipeline_create_def arraySource_def)
  have p1: "(\<forall>y\<in>set [2, 4::int]. even y) \<and> \<not> even (5::int)" by simp
  have p2: "(\<forall>z\<in>set [1, 3::int]. \<not> even z) \<and> even (4::int)" by simp
  note t = match_short_circuit
    [of ?g "Stream_of []" "\<lparr>source = [], stages = [], sourcePulls = 1\<rparr>" "\<lambda>n. even n"
        "[2, 4]" "Stream_of [2, 4, 5, 6]" 5 "\<lparr>source = [6], stages = [], sourcePulls = 3\<rparr>"
        "[1, 3]" "Stream_of [1, 3, 4, 5]" 4 "\<lparr>source = [5], stages = [], sourcePulls = 3\<rparr>"]
  note t0 = t [THEN conjunct1, rule_format, OF h0]
  note t1 = t [THEN conjunct2, THEN conjunct1, rule_format, OF conjI [OF h1 p1]]
  note t2 = t [THEN conjunct2, THEN conjunct2, rule_format, OF conjI [OF h2 p2]]
  have u: "Stream_of xs = \<lparr>pipeline = \<lparr>source = xs, stages = [], sourcePulls = 0\<rparr>,
      processingStarted = False, pulled = 0\<rparr>" for xs :: "int list"
    by (simp add: Stream_of_def ofSource_def newPipelineStream_def ProcessorPipeline_create_def
        arraySource_def)
  show ?thesis
    apply (intro conjI)
    apply (rule h0)
    using t0 apply (simp add: u)
    using t0 apply (simp add: u)
    using t0 apply (simp add: u)
    apply (rule h1)
    apply simp
    apply simp
    apply simp
    using t1 apply (simp add: u)
    apply (rule h2)
    apply simp
    apply simp
    apply simp
    using t2 apply (simp add: u)
    using t2 apply (simp add: u)
    done
qed

subsection \<open>findFirst and findAny\<close>

text \<open>
  Claim C8. On every stream \<open>findAny\<close> returns what \<open>findFirst\<close> returns: the outcome of
  one pull on the pipeline, the first element as a present optional or the empty
  optional of an empty stream.
\<close>

theorem findAny_is_findFirst:
  "findAny gnr s = findFirst gnr s
   \<and> findFirst gnr s
       = (case gnr (pipeline s) of
            None \<Rightarrow> None
          | Some (r, pl) \<Rightarrow>
              Some (r, s\<lparr>pipeline := pl, processingStarted := True, pulled := pulled s + 1\<rparr>))
   \<and> findAny (getNextResult ArraySource_produceNext) (Stream_of [7, 8::int])
       = Some (Some 7, \<lparr>pipeline = \<lparr>source = [8], stages = [], sourcePulls = 1\<rparr>,
                        processingStarted = True, pulled = 1\<rparr>)
   \<and> findAny (getNextResult ArraySource_produceNext) (Stream_of ([]::int list))
       = Some (None, \<lparr>pipeline = \<lparr>source = [], stages = [], sourcePulls = 1\<rparr>,
                      processingStarted = True, pulled = 1\<rparr>)"
  by (simp add: findAny_def findFirst_def getNextProcessedItem_def getNextResult_source
      Stream_of_def ofSource_def newPipelineStream_def ProcessorPipeline_create_def
      arraySource_def)

subsection \<open>reduce\<close>

lemma reduce_loop_all:
  "pulls gnr (Suc (length xs)) (pipeline s) = Some (map Some xs @ [None], pl') \<Longrightarrow>
   Option.bind (getNextProcessedItem gnr s) (\<lambda>(n, s'). reduce_loop gnr acc cur n s')
     = Some ((case cur of
                Some c \<Rightarrow> Some (foldl acc c xs)
              | None \<Rightarrow> (case xs of [] \<Rightarrow> None | x # rest \<Rightarrow> Some (foldl acc x rest))),
             s\<lparr>pipeline := pl', processingStarted := True, pulled := pulled s + Suc (length xs)\<rparr>)"
proof (induction xs arbitrary: s cur)
  case Nil
  then have "gnr (pipeline s) = Some (None, pl')" by (simp add: pulls_last)
  then show ?case
    by (simp add: getNextProcessedItem_def reduce_loop.simps split: option.splits)
next
  case (Cons x xs)
  from Cons.prems(1) obtain pl1 where g: "gnr (pipeline s) = Some (Some x, pl1)"
    and rest: "pulls gnr (Suc (length xs)) pl1 = Some (map Some xs @ [None], pl')"
    by (rule pulls_first)
  let ?s1 = "s\<lparr>pipeline := pl1, processingStarted := True, pulled := pulled s + 1\<rparr>"
  let ?cur = "case cur of Some c \<Rightarrow> Some (acc c x) | None \<Rightarrow> Some x"
  have rest': "pulls gnr (Suc (length xs)) (pipeline ?s1) = Some (map Some xs @ [None], pl')"
    using rest by simp
  have "Option.bind (getNextProcessedItem gnr s) (\<lambda>(n, s'). reduce_loop gnr acc cur n s')
      = reduce_loop gnr acc cur (Some x) ?s1"
    using g by (simp add: getNextProcessedItem_def)
  also have "\<dots> = Option.bind (getNextProcessedItem gnr ?s1)
                     (\<lambda>(n, s'). reduce_loop gnr acc ?cur n s')"
    by (subst reduce_loop.simps) simp
  also have "\<dots> = Some ((case ?cur of
                Some c \<Rightarrow> Some (foldl acc c xs)
              | None \<Rightarrow> (case xs of [] \<Rightarrow> None | x # rest \<Rightarrow> Some (foldl acc x rest))),
             ?s1\<lparr>pipeline := pl', processingStarted := True, pulled := pulled ?s1 + Suc (length xs)\<rparr>)"
    by (rule Cons.IH [OF rest'])
  finally show ?case by (simp split: option.splits)
qed

text \<open>
  Claim C5. Whatever the accumulator: on a stream whose first pull returns the empty
  optional, \<open>reduce\<close> without a seed returns the empty optional and \<open>reduce\<close> with the
  seed \<open>sd\<close> returns \<open>sd\<close> as a present optional. On a stream that yields the elements
  \<open>x, xs\<close> and then the empty optional, \<open>reduce\<close> returns the left-to-right fold of the
  accumulator, started from \<open>x\<close> over \<open>xs\<close> without a seed and from the seed over all
  the elements with one. \<open>reduce((a,b)=>a+b)\<close> on \<open>[1,2,3,4]\<close> returns \<open>10\<close>.
\<close>

theorem reduce_folds_left:
  "(gnr (pipeline s0) = Some (None, pl0) \<longrightarrow>
      reduce gnr acc Undefined s0
        = Some (None, s0\<lparr>pipeline := pl0, processingStarted := True, pulled := pulled s0 + 1\<rparr>)
      \<and> reduce gnr acc (Val sd) s0
        = Some (Some sd, s0\<lparr>pipeline := pl0, processingStarted := True, pulled := pulled s0 + 1\<rparr>))
   \<and> (pulls gnr (Suc (length (x # xs))) (pipeline s) = Some (map Some (x # xs) @ [None], pl) \<longrightarrow>
      reduce gnr acc Undefined s
        = Some (Some (foldl acc x xs),
                s\<lparr>pipeline := pl, processingStarted := True,
                  pulled := pulled s + Suc (length (x # xs))\<rparr>)
      \<and> reduce gnr acc (Val sd) s
        = Some (Some (foldl acc sd (x # xs)),
                s\<lparr>pipeline := pl, processingStarted := True,
                  pulled := pulled s + Suc (length (x # xs))\<rparr>))
   \<and> map_option fst
        (reduce (getNextResult ArraySource_produceNext) (\<lambda>a b. a + b) Undefined
           (Stream_of [1, 2, 3, 4::int]))
       = Some (Some 10)"
proof (intro conjI impI)
  assume e: "gnr (pipeline s0) = Some (None, pl0)"
  show "reduce gnr acc Undefined s0
        = Some (None, s0\<lparr>pipeline := pl0, processingStarted := True, pulled := pulled s0 + 1\<rparr>)"
    using e by (simp add: reduce_def getNextProcessedItem_def reduce_loop.simps)
  show "reduce gnr acc (Val sd) s0
        = Some (Some sd, s0\<lparr>pipeline := pl0, processingStarted := True, pulled := pulled s0 + 1\<rparr>)"
    using e by (simp add: reduce_def getNextProcessedItem_def reduce_loop.simps)
next
  assume a: "pulls gnr (Suc (length (x # xs))) (pipeline s) = Some (map Some (x # xs) @ [None], pl)"
  show "reduce gnr acc Undefined s
        = Some (Some (foldl acc x xs),
                s\<lparr>pipeline := pl, processingStarted := True,
                  pulled := pulled s + Suc (length (x # xs))\<rparr>)"
    using reduce_loop_all [OF a, of acc None] by (simp add: reduce_def)
  show "reduce gnr acc (Val sd) s
        = Some (Some (foldl acc sd (x # xs)),
                s\<lparr>pipeline := pl, processingStarted := True,
                  pulled := pulled s + Suc (length (x # xs))\<rparr>)"
    using reduce_loop_all [OF a, of acc "Some sd"] by (simp add: reduce_def)
next
  have "pulls (getNextResult ArraySource_produceNext) (Suc (length [1, 2, 3, 4::int]))
          (pipeline (Stream_of [1, 2, 3, 4::int]))
        = Some (map Some [1, 2, 3, 4] @ [None], \<lparr>source = [], stages = [], sourcePulls = 5\<rparr>)"
    by (simp add: getNextResult_source Stream_of_def ofSource_def newPipelineStream_def
        ProcessorPipeline_create_def arraySource_def)
  from reduce_loop_all [OF this, of "\<lambda>a b. a + b" None]
  show "map_option fst
        (reduce (getNextResult ArraySource_produceNext) (\<lambda>a b. a + b) Undefined
           (Stream_of [1, 2, 3, 4::int]))
       = Some (Some 10)"
    by (simp add: reduce_def)
qed

theorem reduce_folds_left_witness:
  "getNextResult ArraySource_produceNext (pipeline (Stream_of ([]::int list)))
      = Some (None, \<lparr>source = [], stages = [], sourcePulls = 1\<rparr>)
   \<and> reduce (getNextResult ArraySource_produceNext) (\<lambda>a b. a * b) Undefined
        (Stream_of ([]::int list))
      = Some (None, \<lparr>pipeline = \<lparr>source = [], stages = [], sourcePulls = 1\<rparr>,
                     processingStarted = True, pulled = 1\<rparr>)
   \<and> reduce (getNextResult ArraySource_produceNext) (\<lambda>a b. a * b) (Val 7)
        (Stream_of ([]::int list))
      = Some (Some 7, \<lparr>pipeline = \<lparr>source = [], stages = [], sourcePulls = 1\<rparr>,
                       processingStarted = True, pulled = 1\<rparr>)
   \<and> pulls (getNextResult ArraySource_produceNext) (Suc (length [2, 3, 4::int]))
        (pipeline (Stream_of [2, 3, 4::int]))
      = Some (map Some [2, 3, 4::int] @ [None], \<lparr>source = [], stages = [], sourcePulls = 4\<rparr>)
   \<and> reduce (getNextResult ArraySource_produceNext) (\<lambda>a b. a * b) Undefined
        (Stream_of [2, 3, 4::int])
      = Some (Some 24, \<lparr>pipeline = \<lparr>source = [], stages = [], sourcePulls = 4\<rparr>,
                        processingStarted = True, pulled = 4\<rparr>)
   \<and> reduce (getNextResult ArraySource_produceNext) (\<lambda>a b. a * b) (Val 7)
        (Stream_of [2, 3, 4::int])
      = Some (Some 168, \<lparr>pipeline = \<lparr>source = [], stages = [], sourcePulls = 4\<rparr>,
                         processingStarted = True, pulled = 4\<rparr>)"
proof -
  let ?g = "getNextResult ArraySource_produceNext :: (int list, int) ProcessorPipeline \<Rightarrow> _"
  have u: "Stream_of xs = \<lparr>pipeline = \<lparr>source = xs, stages = [], sourcePulls = 0\<rparr>,
      processingStarted = False, pulled = 0\<rparr>" for xs :: "int list"
    by (simp add: Stream_of_def ofSource_def newPipelineStream_def ProcessorPipeline_create_def
        arraySource_def)
  have h0: "?g (pipeline (Stream_of [])) = Some (None, \<lparr>source = [], stages = [], sourcePulls = 1\<rparr>)"
    by (simp add: getNextResult_source u)
  have h1: "pulls ?g (Suc (length [2, 3, 4::int])) (pipeline (Stream_of [2, 3, 4::int]))
      = Some (map Some [2, 3, 4::int] @ [None], \<lparr>source = [], stages = [], sourcePulls = 4\<rparr>)"
    by (simp add: getNextResult_source u)
  note t = reduce_folds_left
    [of ?g "Stream_of []" "\<lparr>source = [], stages = [], sourcePulls = 1\<rparr>" "\<lambda>a b. a * b" 7
        2 "[3, 4]" "Stream_of [2, 3, 4]" "\<lparr>source = [], stages = [], sourcePulls = 4\<rparr>"]
  note t0 = t [THEN conjunct1, rule_format, OF h0]
  note t1 = t [THEN conjunct2, THEN conjunct1, rule_format, OF h1]
  show ?thesis
    apply (intro conjI)
    apply (rule h0)
    using t0 apply (simp add: u)
    using t0 apply (simp add: u)
    apply (rule h1)
    using t1 apply (simp add: u)
    using t1 apply (simp add: u)
    done
qed

subsection \<open>collect with a supplier, an accumulator and a combiner\<close>

lemma customCollect_loop_all:
  "pulls gnr (Suc (length xs)) (pipeline s) = Some (map Some xs @ [None], pl') \<Longrightarrow>
   Option.bind (getNextProcessedItem gnr s) (\<lambda>(n, s'). customCollect_loop gnr acc c n s')
     = Some (foldl acc c xs,
             s\<lparr>pipeline := pl', processingStarted := True, pulled := pulled s + Suc (length xs)\<rparr>)"
proof (induction xs arbitrary: s c)
  case Nil
  then have "gnr (pipeline s) = Some (None, pl')" by (simp add: pulls_last)
  then show ?case
    by (simp add: getNextProcessedItem_def customCollect_loop.simps)
next
  case (Cons x xs)
  from Cons.prems(1) obtain pl1 where g: "gnr (pipeline s) = Some (Some x, pl1)"
    and rest: "pulls gnr (Suc (length xs)) pl1 = Some (map Some xs @ [None], pl')"
    by (rule pulls_first)
  let ?s1 = "s\<lparr>pipeline := pl1, processingStarted := True, pulled := pulled s + 1\<rparr>"
  have rest': "pulls gnr (Suc (length xs)) (pipeline ?s1) = Some (map Some xs @ [None], pl')"
    using rest by simp
  have "Option.bind (getNextProcessedItem gnr s) (\<lambda>(n, s'). customCollect_loop gnr acc c n s')
      = customCollect_loop gnr acc c (Some x) ?s1"
    using g by (simp add: getNextProcessedItem_def)
  also have "\<dots> = Option.bind (getNextProcessedItem gnr ?s1)
                     (\<lambda>(n, s'). customCollect_loop gnr acc (acc c x) n s')"
    by (subst customCollect_loop.simps) simp
  also have "\<dots> = Some (foldl acc (acc c x) xs,
             ?s1\<lparr>pipeline := pl', processingStarted := True, pulled := pulled ?s1 + Suc (length xs)\<rparr>)"
    by (rule Cons.IH [OF rest'])
  finally show ?case by simp
qed

text \<open>
  Claim C7, which the code does not meet. \<open>collect(supplier, accumulator, combiner)\<close>
  runs \<open>customCollect\<close> with its three arguments and drops what it returns: whenever
  \<open>customCollect\<close> returns a container, \<open>collect\<close> returns \<open>undefined\<close>. On the stream of
  \<open>[1,2,3]\<close>, with a supplier of the empty list and an accumulator that appends,
  \<open>customCollect\<close> returns \<open>[1,2,3]\<close> and \<open>collect\<close> returns \<open>undefined\<close>.
\<close>

theorem collect_three_arguments_returns_undefined:
  "collect gnr (Inr supplier) (Some acc) (Some comb) s
     = Option.bind (customCollect gnr supplier acc comb s) (\<lambda>(container, s'). Some (Undefined, s'))
   \<and> customCollect (getNextResult ArraySource_produceNext)
        (\<lambda>_. []) (\<lambda>l x. l @ [x]) (\<lambda>a b. a @ b) (Stream_of [1, 2, 3::int])
     = Some ([1, 2, 3], \<lparr>pipeline = \<lparr>source = [], stages = [], sourcePulls = 4\<rparr>,
                         processingStarted = True, pulled = 4\<rparr>)
   \<and> collect (getNextResult ArraySource_produceNext)
        (Inr (\<lambda>_. [])) (Some (\<lambda>l x. l @ [x])) (Some (\<lambda>a b. a @ b)) (Stream_of [1, 2, 3::int])
     = Some (Undefined, \<lparr>pipeline = \<lparr>source = [], stages = [], sourcePulls = 4\<rparr>,
                         processingStarted = True, pulled = 4\<rparr>)"
proof -
  let ?g = "getNextResult ArraySource_produceNext :: (int list, int) ProcessorPipeline \<Rightarrow> _"
  have u: "Stream_of xs = \<lparr>pipeline = \<lparr>source = xs, stages = [], sourcePulls = 0\<rparr>,
      processingStarted = False, pulled = 0\<rparr>" for xs :: "int list"
    by (simp add: Stream_of_def ofSource_def newPipelineStream_def ProcessorPipeline_create_def
        arraySource_def)
  have g: "collect gnr (Inr supplier) (Some acc) (Some comb) s
     = Option.bind (customCollect gnr supplier acc comb s) (\<lambda>(container, s'). Some (Undefined, s'))"
    for gnr :: "'p \<Rightarrow> ('t option \<times> 'p) option" and supplier :: "unit \<Rightarrow> 'r" and acc comb s
    by (simp add: collect_def)
  have h: "pulls ?g (Suc (length [1, 2, 3::int])) (pipeline (Stream_of [1, 2, 3::int]))
      = Some (map Some [1, 2, 3::int] @ [None], \<lparr>source = [], stages = [], sourcePulls = 4\<rparr>)"
    by (simp add: getNextResult_source u)
  have c: "customCollect ?g (\<lambda>_. []) (\<lambda>l x. l @ [x]) (\<lambda>a b. a @ b) (Stream_of [1, 2, 3::int])
     = Some ([1, 2, 3], \<lparr>pipeline = \<lparr>source = [], stages = [], sourcePulls = 4\<rparr>,
                         processingStarted = True, pulled = 4\<rparr>)"
    using customCollect_loop_all [OF h, of "\<lambda>l x. l @ [x]" "[]"]
    by (simp add: customCollect_def u)
  show ?thesis
    using c by (simp add: g)
qed

section \<open>Properties of the pipeline\<close>

subsection \<open>Helper lemmas\<close>








subsection \<open>rangeClosed\<close>


















subsection \<open>A limit stage that has emitted its bound\<close>



end
